theory Spec2Isabelle
  imports Complex_Main "HOL-Library.AList"
begin

section \<open>The analog watch: time sampler and hand animator\<close>

text \<open>
  The development follows the class \<open>AnalogWatch\<close>. JavaScript numbers that hold
  whole seconds are natural numbers; angles, durations and keyframe times are real
  numbers, so division and multiplication are exact here and the rounding of IEEE
  doubles is not part of the model.
\<close>

subsection \<open>Time sampler: \<open>AnalogWatch.now\<close>\<close>

text \<open>
  The wall-clock reading of the current instant in one timezone, as the host's
  \<open>Date\<close> knows it: hour of the day (0 to 23), minute and second.
\<close>

record wall_clock =
  hour :: nat
  minute :: nat
  second :: nat

definition valid_clock :: "wall_clock \<Rightarrow> bool" where
  "valid_clock d = (hour d < 24 \<and> minute d < 60 \<and> second d < 60)"

definition digit :: "nat \<Rightarrow> char" where
  "digit n = char_of (48 + n)"

definition two_digits :: "nat \<Rightarrow> string" where
  "two_digits n = [digit (n div 10), digit (n mod 10)]"

definition numeric :: "nat \<Rightarrow> string" where
  "numeric n = (if n < 10 then [digit n] else two_digits n)"

text \<open>The hour of the 12-hour cycle that the locale en-US prints: 12, 1, 2, ..., 11.\<close>

definition hour12 :: "nat \<Rightarrow> nat" where
  "hour12 h = (if h mod 12 = 0 then 12 else h mod 12)"

text \<open>
  \<open>Date.toLocaleTimeString("en-US", { timeZone: tz, hour12: true })\<close> on a reading
  already taken in zone \<open>tz\<close>: the text \<open>h:mm:ss AM\<close> or \<open>h:mm:ss PM\<close>.
\<close>

definition toLocaleTimeString :: "wall_clock \<Rightarrow> string" where
  "toLocaleTimeString d =
     numeric (hour12 (hour d)) @ '':'' @ two_digits (minute d) @ '':'' @
     two_digits (second d) @ '' '' @ (if hour d < 12 then ''AM'' else ''PM'')"

text \<open>\<open>String.prototype.split\<close> with a separator of one character.\<close>

fun split :: "char \<Rightarrow> string \<Rightarrow> string list" where
  "split sep [] = ['''']"
| "split sep (c # cs) =
     (if c = sep then [] # split sep cs
      else (c # hd (split sep cs)) # tl (split sep cs))"

definition is_digit :: "char \<Rightarrow> bool" where
  "is_digit c = (48 \<le> (of_char c :: nat) \<and> (of_char c :: nat) \<le> 57)"

definition digit_val :: "char \<Rightarrow> nat" where
  "digit_val c = of_char c - 48"

text \<open>
  \<open>parseFloat\<close> on the texts that occur here: the value of the leading run of decimal
  digits, and \<open>None\<close> for NaN when the text does not start with a digit. (Signs,
  fractions and exponents do not occur in a rendered time.)
\<close>

definition parseFloat :: "string \<Rightarrow> nat option" where
  "parseFloat s =
     (let ds = takeWhile is_digit s
      in if ds = [] then None
         else Some (foldl (\<lambda>acc c. acc * 10 + digit_val c) 0 ds))"

text \<open>Reading \<open>t[i]\<close>: out of range gives \<open>undefined\<close>, which is NaN in arithmetic.\<close>

definition index :: "nat option list \<Rightarrow> nat \<Rightarrow> nat option" where
  "index t i = (if i < length t then t ! i else None)"

text \<open>
  The local \<open>tz\<close> of \<open>now\<close>: the option \<open>timezone\<close> of the watch, or the default
  zone when the option is absent or empty.
\<close>

definition zone_of :: "string option \<Rightarrow> string" where
  "zone_of timezone =
     (case timezone of None \<Rightarrow> ''Europe/London''
      | Some z \<Rightarrow> if z = [] then ''Europe/London'' else z)"

text \<open>
  \<open>now\<close>. The parameter \<open>clock\<close> stands for \<open>new Date(Date.now())\<close> seen from a
  timezone: it gives the current wall-clock reading in the zone named.
\<close>

definition now :: "(string \<Rightarrow> wall_clock) \<Rightarrow> string option \<Rightarrow> nat option" where
  "now clock timezone =
     (let tz = zone_of timezone;
          d = clock tz;
          t = map parseFloat (split CHR '':'' (hd (split CHR '' '' (toLocaleTimeString d))))
      in case (index t 0, index t 1) of
           (Some t0, Some t1) \<Rightarrow> Some (t0 * 3600 + t1 * 60 + t0)
         | _ \<Rightarrow> None)"

subsection \<open>Hand animator: the phase of each hand\<close>

text \<open>
  The locals \<open>full\<close>, \<open>init\<close> and \<open>duration\<close> of the callback in \<open>animateHands\<close>,
  as the \<open>switch\<close> on the hand's name leaves them. They start at 0 and the switch has
  no default, so any other name keeps 0.
\<close>

record locals =
  full_of :: nat
  init_of :: real
  duration_of :: real

definition animateHands_locals :: "string \<Rightarrow> nat \<Rightarrow> locals" where
  "animateHands_locals name time =
     (if name = ''hour'' then
        (let full = 12 * 3600;
             init = real time / real full * 360;
             duration = (360 - init) / 360 * real full
         in \<lparr>full_of = full, init_of = init, duration_of = duration\<rparr>)
      else if name = ''minute'' then
        (let full = 3600;
             init = real (time mod full) / real full * 360;
             duration = (360 - init) / 360 * real full
         in \<lparr>full_of = full, init_of = init, duration_of = duration\<rparr>)
      else if name = ''second'' then
        (let full = 60;
             init = real (time mod full) / real full * 360;
             duration = (360 - init) / 360 * real full
         in \<lparr>full_of = full, init_of = init, duration_of = duration\<rparr>)
      else \<lparr>full_of = 0, init_of = 0, duration_of = 0\<rparr>)"

text \<open>The keys of \<open>this.hands\<close>, in the order \<open>init\<close> inserts them.\<close>

definition hand_names :: "string list" where
  "hand_names = [''hour'', ''minute'', ''second'']"

subsection \<open>Hand animator: keyframes\<close>

text \<open>
  A keyframe value is the SDK call \<open>Quaternion.FromEulerAngles(x, y, z)\<close>, kept as
  the call with its three arguments in radians.
\<close>

datatype quaternion = FromEulerAngles real real real

definition DegreesToRadians :: real where
  "DegreesToRadians = pi / 180"

record keyframe =
  kf_time :: real
  kf_value :: quaternion

text \<open>
  Lines 119 to 134 of \<open>animateHandHelper\<close>: two keyframes, and for \<open>init < 180\<close> a
  third one spliced in at index 1.
\<close>

definition keyframes_of :: "real \<Rightarrow> real \<Rightarrow> keyframe list" where
  "keyframes_of init duration =
     (let keyframes =
            [\<lparr>kf_time = 0, kf_value = FromEulerAngles 0 (init * DegreesToRadians) 0\<rparr>,
             \<lparr>kf_time = duration,
              kf_value = FromEulerAngles 0 (360 * DegreesToRadians) 0\<rparr>]
      in if init < 180 then
           take 1 keyframes @
           [\<lparr>kf_time = duration / (360 - init) * (180 - init),
             kf_value = FromEulerAngles 0 (180 * DegreesToRadians) 0\<rparr>] @
           drop 1 keyframes
         else keyframes)"

subsection \<open>The shared asset container\<close>

datatype ease_curve = Linear | Step | EaseInQuadratic | EaseOutQuadratic

record track =
  target :: string
  easing :: ease_curve
  keyframes :: "keyframe list"

text \<open>
  The template string \<open>`${name} ${init} ${duration}`\<close> is kept as the triple of the
  values it prints.
\<close>

type_synonym animation_name = "string \<times> real \<times> real"

record animationData =
  dataId :: nat
  dataName :: animation_name
  tracks :: "track list"

text \<open>
  The check that the SDK runs on new data inside \<open>createAnimationData\<close> (the SDK is
  not part of the sources): there is a track, and in every track the first keyframe
  is not before time 0 and every later keyframe comes strictly after the one before.
  \<open>Validate\<close> is true when the SDK finds no issue.
\<close>

fun ordered :: "real \<Rightarrow> keyframe list \<Rightarrow> bool" where
  "ordered prev [] = True"
| "ordered prev (k # ks) = (prev < kf_time k \<and> ordered (kf_time k) ks)"

definition in_sequence :: "keyframe list \<Rightarrow> bool" where
  "in_sequence ks =
     (case ks of [] \<Rightarrow> False | k # rest \<Rightarrow> 0 \<le> kf_time k \<and> ordered (kf_time k) rest)"

definition Validate :: "track list \<Rightarrow> bool" where
  "Validate ts = (ts \<noteq> [] \<and> list_all (\<lambda>t. in_sequence (keyframes t)) ts)"

text \<open>
  \<open>AssetContainer.createAnimationData\<close>: data with an issue makes the call throw,
  which is \<open>None\<close>, and nothing is registered; otherwise a new object with a fresh
  identity is added to the container and returned.
\<close>

definition createAnimationData ::
  "animation_name \<Rightarrow> track list \<Rightarrow> animationData list \<Rightarrow>
   (animationData \<times> animationData list) option"
where
  "createAnimationData n ts container =
     (if Validate ts then
        (let a = \<lparr>dataId = length container, dataName = n, tracks = ts\<rparr>
         in Some (a, container @ [a]))
      else None)"

text \<open>The one track of line 142: the local rotation of the actor, linear easing.\<close>

definition rotation_track :: "keyframe list \<Rightarrow> track" where
  "rotation_track ks =
     \<lparr>target = ''actor.transform.local.rotation'', easing = Linear, keyframes = ks\<rparr>"

text \<open>
  Lines 137 to 150 of \<open>animateHandHelper\<close>: look the name up in the container, and
  create the data only when nothing is found. \<open>None\<close> when the creation throws.
\<close>

definition animationData_for ::
  "string \<Rightarrow> real \<Rightarrow> real \<Rightarrow> animationData list \<Rightarrow>
   (animationData \<times> animationData list) option"
where
  "animationData_for name init duration container =
     (let animationName = (name, init, duration)
      in case find (\<lambda>a. dataName a = animationName) container of
           Some a \<Rightarrow> Some (a, container)
         | None \<Rightarrow>
             createAnimationData animationName
               [rotation_track (keyframes_of init duration)] container)"

text \<open>The container after one request: unchanged when the request throws.\<close>

definition container_after ::
  "string \<Rightarrow> real \<Rightarrow> real \<Rightarrow> animationData list \<Rightarrow> animationData list" where
  "container_after name init duration container =
     (case animationData_for name init duration container of
        None \<Rightarrow> container
      | Some (a, c) \<Rightarrow> c)"

text \<open>
  A sequence of such requests, each a triple of hand name, initial angle and duration,
  made one after the other on the shared container by whatever watches exist.
\<close>

definition request_all ::
  "(string \<times> real \<times> real) list \<Rightarrow> animationData list \<Rightarrow> animationData list" where
  "request_all rs container =
     fold (\<lambda>(name, init, duration) c. container_after name init duration c) rs container"

text \<open>
  Modelled from the spec: \<open>AnimationData.duration()\<close> of the SDK, which is not part
  of the sources. It is the authored length of the data, derived from the time of the
  last keyframe of each track.
\<close>

definition animationData_duration :: "animationData \<Rightarrow> real" where
  "animationData_duration a =
     foldl (\<lambda>trackMax t. max trackMax (kf_time (last (keyframes t)))) 0 (tracks a)"

subsection \<open>One watch instance as a machine\<close>

datatype wrapMode = Once | Loop

text \<open>
  An \<open>Animation\<close>: the data bound, the hand whose actor it drives, and its playback
  state. A call of \<open>bind\<close> asks the host for one; the host answers later, and the
  call itself is taken to succeed.
\<close>

record animation =
  animData :: animationData
  actor :: string
  isPlaying :: bool
  wrap :: wrapMode

text \<open>
  Where the asynchronous pipeline of one hand is suspended: at \<open>await bind\<close>
  (line 151) or at the timer (line 158). \<open>AwaitBind\<close> keeps the request and the
  flag \<open>loop\<close>; both keep what the caller does once the helper returns: \<open>Some full\<close>
  when line 114 follows, \<open>None\<close> when nothing follows.
\<close>

datatype task =
  AwaitBind animation bool "nat option"
| AwaitTimer real "nat option"

text \<open>
  The instance with the container it shares: \<open>animations\<close> is the map of the class,
  in insertion order, from hand name to a handle, and a handle is an index into
  \<open>created\<close>, the animations that the host has made. \<open>requested\<close> lists the calls
  of \<open>bind\<close> so far, and \<open>rejected\<close> the hands whose pipeline ended in an exception
  that nothing catches.
\<close>

record watch =
  assets :: "animationData list"
  animations :: "(string \<times> nat) list"
  created :: "animation list"
  requested :: "animation list"
  pending :: "string \<rightharpoonup> task"
  rejected :: "string list"

text \<open>
  \<open>animateHandHelper\<close> up to its first suspension, the \<open>await\<close> of line 151. When
  \<open>createAnimationData\<close> throws, the promise of the helper is rejected; the callback
  of \<open>animateHands\<close> that awaits it is rejected in turn, so nothing more happens for
  this hand.
\<close>

definition animateHandHelper ::
  "string \<Rightarrow> real \<Rightarrow> real \<Rightarrow> bool \<Rightarrow> nat option \<Rightarrow> watch \<Rightarrow> watch" where
  "animateHandHelper name init duration loop cont s =
     (case animationData_for name init duration (assets s) of
        None \<Rightarrow> s\<lparr>pending := (pending s)(name := None), rejected := rejected s @ [name]\<rparr>
      | Some (animationData, container) \<Rightarrow>
          (let request = \<lparr>animData = animationData, actor = name, isPlaying = True,
                          wrap = (if loop then Loop else Once)\<rparr>
           in s\<lparr>assets := container,
                requested := requested s @ [request],
                pending := (pending s)(name \<mapsto> AwaitBind request loop cont)\<rparr>))"

text \<open>
  The helper has returned: the callback of \<open>animateHands\<close> goes on with line 114, or
  the pipeline of this hand is over.
\<close>

definition returned :: "string \<Rightarrow> nat option \<Rightarrow> watch \<Rightarrow> watch" where
  "returned name cont s =
     (case cont of
        Some full \<Rightarrow> animateHandHelper name 0 (real full) True None s
      | None \<Rightarrow> s\<lparr>pending := (pending s)(name := None)\<rparr>)"

text \<open>
  The host has answered the \<open>bind\<close> of hand \<open>name\<close>: lines 155 to 159.
\<close>

definition bind_resolved :: "string \<Rightarrow> watch \<Rightarrow> watch" where
  "bind_resolved name s =
     (case pending s name of
        Some (AwaitBind request loop cont) \<Rightarrow>
          (let s1 = s\<lparr>created := created s @ [request],
                       animations := AList.update name (length (created s)) (animations s)\<rparr>
           in if \<not> loop then
                s1\<lparr>pending := (pending s1)(name \<mapsto>
                       AwaitTimer (animationData_duration (animData request) * 1000) cont)\<rparr>
              else returned name cont s1)
      | _ \<Rightarrow> s)"

text \<open>The timer of line 158 has fired for hand \<open>name\<close>.\<close>

definition timer_fired :: "string \<Rightarrow> watch \<Rightarrow> watch" where
  "timer_fired name s =
     (case pending s name of
        Some (AwaitTimer ms cont) \<Rightarrow> returned name cont s
      | _ \<Rightarrow> s)"

text \<open>\<open>stop\<close>: every animation in the map is told to stop.\<close>

definition stop :: "watch \<Rightarrow> watch" where
  "stop s =
     s\<lparr>created := fold (\<lambda>h cs. cs[h := (cs ! h)\<lparr>isPlaying := False\<rparr>])
                      (map snd (animations s)) (created s)\<rparr>"

text \<open>
  \<open>animateHands\<close>: the callback runs for each hand up to its first suspension, or up
  to the exception that ends it; the callbacks of the other hands run all the same.
\<close>

definition animateHand :: "nat \<Rightarrow> string \<Rightarrow> watch \<Rightarrow> watch" where
  "animateHand time name s =
     (let l = animateHands_locals name time
      in animateHandHelper name (init_of l) (duration_of l) False (Some (full_of l)) s)"

definition animateHands :: "nat \<Rightarrow> watch \<Rightarrow> watch" where
  "animateHands time s = fold (animateHand time) hand_names s"

text \<open>A new instance on a container: both maps of the class are empty.\<close>

definition new_watch :: "animationData list \<Rightarrow> watch" where
  "new_watch container =
     \<lparr>assets = container, animations = [], created = [], requested = [],
      pending = Map.empty, rejected = []\<rparr>"

text \<open>\<open>start\<close>: sample the time once and animate; no state when the sample is NaN.\<close>

definition start :: "(string \<Rightarrow> wall_clock) \<Rightarrow> string option \<Rightarrow> watch \<Rightarrow> watch option" where
  "start clock timezone s = map_option (\<lambda>time. animateHands time s) (now clock timezone)"

text \<open>What happens to an instance after \<open>start\<close>.\<close>

datatype event = BindResolved string | TimerFired string | StopCalled

fun step :: "event \<Rightarrow> watch \<Rightarrow> watch" where
  "step (BindResolved name) s = bind_resolved name s"
| "step (TimerFired name) s = timer_fired name s"
| "step StopCalled s = stop s"

definition run :: "event list \<Rightarrow> watch \<Rightarrow> watch" where
  "run es s = fold step es s"

subsection \<open>Notions used to state the properties\<close>


text \<open>How many times the loop phase of a hand has been started.\<close>

definition loops :: "string \<Rightarrow> watch \<Rightarrow> nat" where
  "loops name s = length (filter (\<lambda>r. actor r = name \<and> wrap r = Loop) (requested s))"

text \<open>The hand is in its catch-up phase: its first bind or its timer is awaited.\<close>

definition catching_up :: "string \<Rightarrow> watch \<Rightarrow> bool" where
  "catching_up name s =
     (case pending s name of
        Some (AwaitBind r loop cont) \<Rightarrow> \<not> loop
      | Some (AwaitTimer ms cont) \<Rightarrow> True
      | None \<Rightarrow> False)"

definition waiting :: "string \<Rightarrow> watch \<Rightarrow> bool" where
  "waiting name s =
     (case pending s name of Some (AwaitTimer ms cont) \<Rightarrow> True | _ \<Rightarrow> False)"




text \<open>
  A watch started on an empty container at the sample 3661, after the host has bound
  the catch-up animation of the hour hand.
\<close>

definition hour_bound :: watch where
  "hour_bound = run [BindResolved ''hour''] (animateHands 3661 (new_watch []))"

text \<open>
  A watch started on an empty container at the sample 45012, which \<open>now\<close> returns
  at 12:30.
\<close>

definition started_at_half_past_twelve :: watch where
  "started_at_half_past_twelve = animateHands 45012 (new_watch [])"

section \<open>Properties\<close>

subsection \<open>Rendering and parsing a reading\<close>

lemma digit_props:
  assumes "n < 10"
  shows "is_digit (digit n)" and "digit_val (digit n) = n"
    and "digit n \<noteq> CHR '':''" and "digit n \<noteq> CHR '' ''"
proof -
  have v: "(of_char (digit n) :: nat) = 48 + n"
    using assms by (simp add: digit_def)
  show "is_digit (digit n)" using assms v by (simp add: is_digit_def)
  show "digit_val (digit n) = n" using v by (simp add: digit_val_def)
  show "digit n \<noteq> CHR '':''"
  proof
    assume "digit n = CHR '':''"
    then have "(of_char (digit n) :: nat) = of_char CHR '':''" by simp
    with v assms show False by simp
  qed
  show "digit n \<noteq> CHR '' ''"
  proof
    assume "digit n = CHR '' ''"
    then have "(of_char (digit n) :: nat) = of_char CHR '' ''" by simp
    with v show False by simp
  qed
qed

lemma parseFloat_two_digits:
  assumes "n < 100"
  shows "parseFloat (two_digits n) = Some n"
proof -
  have a: "n div 10 < 10" and b: "n mod 10 < 10" using assms by simp_all
  show ?thesis
    by (simp add: parseFloat_def two_digits_def digit_props [OF a] digit_props [OF b])
qed

lemma parseFloat_numeric:
  assumes "n < 100"
  shows "parseFloat (numeric n) = Some n"
proof (cases "n < 10")
  case True
  then show ?thesis
    by (simp add: numeric_def parseFloat_def digit_props [OF True])
next
  case False
  then show ?thesis by (simp add: numeric_def parseFloat_two_digits [OF assms])
qed

lemma split_no_sep: "sep \<notin> set a \<Longrightarrow> split sep a = [a]"
  by (induction a) auto

lemma split_at_sep: "sep \<notin> set a \<Longrightarrow> split sep (a @ sep # b) = a # split sep b"
  by (induction a) auto

lemma two_digits_free:
  assumes "n < 100"
  shows "CHR '':'' \<notin> set (two_digits n)" and "CHR '' '' \<notin> set (two_digits n)"
proof -
  have a: "n div 10 < 10" and b: "n mod 10 < 10" using assms by simp_all
  show "CHR '':'' \<notin> set (two_digits n)"
    using digit_props(3) [OF a] digit_props(3) [OF b] by (auto simp: two_digits_def)
  show "CHR '' '' \<notin> set (two_digits n)"
    using digit_props(4) [OF a] digit_props(4) [OF b] by (auto simp: two_digits_def)
qed

lemma numeric_free:
  assumes "n < 100"
  shows "CHR '':'' \<notin> set (numeric n)" and "CHR '' '' \<notin> set (numeric n)"
proof -
  show "CHR '':'' \<notin> set (numeric n)"
  proof (cases "n < 10")
    case True
    then show ?thesis using digit_props(3) [OF True] by (auto simp: numeric_def)
  next
    case False
    then show ?thesis using two_digits_free(1) [OF assms] by (simp add: numeric_def)
  qed
  show "CHR '' '' \<notin> set (numeric n)"
  proof (cases "n < 10")
    case True
    then show ?thesis using digit_props(4) [OF True] by (auto simp: numeric_def)
  next
    case False
    then show ?thesis using two_digits_free(2) [OF assms] by (simp add: numeric_def)
  qed
qed

lemma hour12_range: "1 \<le> hour12 h \<and> hour12 h \<le> 12"
proof -
  have "h mod 12 < 12" by simp
  then show ?thesis by (auto simp: hour12_def)
qed

lemma rendered_time:
  assumes "valid_clock d"
  shows "map parseFloat (split CHR '':'' (hd (split CHR '' '' (toLocaleTimeString d)))) =
         [Some (hour12 (hour d)), Some (minute d), Some (second d)]"
proof -
  let ?h = "numeric (hour12 (hour d))"
  let ?m = "two_digits (minute d)"
  let ?s = "two_digits (second d)"
  let ?p = "if hour d < 12 then ''AM'' else ''PM''"
  have h: "hour12 (hour d) < 100" using hour12_range [of "hour d"] by simp
  have m: "minute d < 100" and s: "second d < 100"
    using assms by (simp_all add: valid_clock_def)
  have "CHR '' '' \<notin> set (?h @ '':'' @ ?m @ '':'' @ ?s)"
    using numeric_free(2) [OF h] two_digits_free(2) [OF m] two_digits_free(2) [OF s]
    by simp
  then have "split CHR '' '' ((?h @ '':'' @ ?m @ '':'' @ ?s) @ CHR '' '' # ?p) =
             (?h @ '':'' @ ?m @ '':'' @ ?s) # split CHR '' '' ?p"
    by (rule split_at_sep)
  then have front: "hd (split CHR '' '' (toLocaleTimeString d)) = ?h @ '':'' @ ?m @ '':'' @ ?s"
    by (simp add: toLocaleTimeString_def)
  have "split CHR '':'' (?h @ CHR '':'' # ?m @ CHR '':'' # ?s) =
        ?h # split CHR '':'' (?m @ CHR '':'' # ?s)"
    using numeric_free(1) [OF h] by (rule split_at_sep)
  also have "split CHR '':'' (?m @ CHR '':'' # ?s) = ?m # split CHR '':'' ?s"
    using two_digits_free(1) [OF m] by (rule split_at_sep)
  also have "split CHR '':'' ?s = [?s]"
    using two_digits_free(1) [OF s] by (rule split_no_sep)
  finally have parts: "split CHR '':'' (?h @ '':'' @ ?m @ '':'' @ ?s) = [?h, ?m, ?s]"
    by simp
  show ?thesis
    unfolding front parts
    by (simp add: parseFloat_numeric [OF h] parseFloat_two_digits [OF m]
        parseFloat_two_digits [OF s])
qed

lemma now_value:
  assumes "valid_clock (clock (zone_of timezone))"
  shows "now clock timezone =
         Some (hour12 (hour (clock (zone_of timezone))) * 3600 +
               minute (clock (zone_of timezone)) * 60 +
               hour12 (hour (clock (zone_of timezone))))"
proof -
  have "now clock timezone =
        (let t = map parseFloat (split CHR '':''
                   (hd (split CHR '' '' (toLocaleTimeString (clock (zone_of timezone))))))
         in case (index t 0, index t 1) of
              (Some t0, Some t1) \<Rightarrow> Some (t0 * 3600 + t1 * 60 + t0)
            | _ \<Rightarrow> None)"
    by (simp add: now_def Let_def)
  then show ?thesis
    unfolding rendered_time [OF assms] by (simp add: index_def)
qed

subsection \<open>The sample\<close>

text \<open>
  C1. The claim is that the sample is hour * 3600 + minute * 60 + second of the
  reading. The last summand of \<open>now\<close> is \<open>t[0]\<close>, the hour, where the second \<open>t[2]\<close>
  belongs: at 1:01:30 PM the code returns 3661, and the claimed value is 3690.
\<close>

theorem now_adds_hour_for_second:
  "now (\<lambda>tz. \<lparr>hour = 13, minute = 1, second = 30\<rparr>) (Some ''Europe/London'') = Some 3661
   \<and> hour12 13 * 3600 + 1 * 60 + 30 = 3690"
proof -
  have "valid_clock ((\<lambda>tz. \<lparr>hour = 13, minute = 1, second = 30\<rparr>)
          (zone_of (Some ''Europe/London'')))"
    by (simp add: valid_clock_def)
  from now_value [OF this] show ?thesis by (simp add: hour12_def)
qed

lemma sample_at_half_past_twelve:
  "now (\<lambda>tz. \<lparr>hour = 12, minute = 30, second = 45\<rparr>) None = Some 45012"
proof -
  have "valid_clock ((\<lambda>tz. \<lparr>hour = 12, minute = 30, second = 45\<rparr>) (zone_of None))"
    by (simp add: valid_clock_def)
  from now_value [OF this] show ?thesis by (simp add: hour12_def)
qed

text \<open>
  C4. The claim is that the sample lies in [0, 43200). The locale prints the hour after
  midnight and after noon as 12, and \<open>now\<close> does not reduce it: at 12:30:45 PM the
  sample is 45012.
\<close>

theorem now_at_half_past_twelve:
  "now (\<lambda>tz. \<lparr>hour = 12, minute = 30, second = 45\<rparr>) None = Some 45012
   \<and> \<not> (45012 :: nat) < 43200"
  using sample_at_half_past_twelve by simp

text \<open>
  C9. The sample is a function of the hour of the 12-hour cycle and of the minute: two
  readings in the requested zone that agree on both give the same sample, whatever
  their seconds are, and the sample is a number.
\<close>

theorem now_ignores_second:
  assumes "valid_clock (clock1 (zone_of timezone))"
    and "valid_clock (clock2 (zone_of timezone))"
    and "hour12 (hour (clock1 (zone_of timezone))) = hour12 (hour (clock2 (zone_of timezone)))"
    and "minute (clock1 (zone_of timezone)) = minute (clock2 (zone_of timezone))"
  shows "now clock1 timezone = now clock2 timezone \<and>
         now clock1 timezone =
           Some (hour12 (hour (clock1 (zone_of timezone))) * 3600 +
                 minute (clock1 (zone_of timezone)) * 60 +
                 hour12 (hour (clock1 (zone_of timezone))))"
  using now_value [of clock1 timezone] now_value [of clock2 timezone] assms by simp

theorem now_ignores_second_witness:
  "now (\<lambda>tz. \<lparr>hour = 13, minute = 1, second = 30\<rparr>) None =
   now (\<lambda>tz. \<lparr>hour = 1, minute = 1, second = 5\<rparr>) None \<and>
   now (\<lambda>tz. \<lparr>hour = 13, minute = 1, second = 30\<rparr>) None = Some 3661"
proof -
  have "now (\<lambda>tz. \<lparr>hour = 13, minute = 1, second = 30\<rparr>) None =
        now (\<lambda>tz. \<lparr>hour = 1, minute = 1, second = 5\<rparr>) None \<and>
        now (\<lambda>tz. \<lparr>hour = 13, minute = 1, second = 30\<rparr>) None =
          Some (hour12 (hour ((\<lambda>tz. \<lparr>hour = 13, minute = 1, second = 30\<rparr>) (zone_of None)))
                  * 3600 +
                minute ((\<lambda>tz. \<lparr>hour = 13, minute = 1, second = 30\<rparr>) (zone_of None)) * 60 +
                hour12 (hour ((\<lambda>tz. \<lparr>hour = 13, minute = 1, second = 30\<rparr>) (zone_of None))))"
    by (rule now_ignores_second) (simp_all add: valid_clock_def hour12_def)
  then show ?thesis by (auto simp add: hour12_def)
qed

subsection \<open>The phase of a hand and its keyframes\<close>

lemma full_of_hand:
  "name \<in> set hand_names \<Longrightarrow>
   full_of (animateHands_locals name time) =
     (if name = ''hour'' then 43200 else if name = ''minute'' then 3600 else 60)"
  by (auto simp: hand_names_def animateHands_locals_def Let_def)

text \<open>
  C2. The claim is that every hand gets init = (sample mod full) / full * 360, inside
  [0, 360). The minute and second arms of the switch take the modulus, the hour arm does
  not: for the sample 45012, which \<open>now\<close> returns at 12:30, the hour hand gets
  375.1 degrees and the duration -1812, where the claimed angle is 15.1 degrees.
\<close>

theorem hour_hand_past_full:
  "now (\<lambda>tz. \<lparr>hour = 12, minute = 30, second = 45\<rparr>) None = Some 45012
   \<and> animateHands_locals ''hour'' 45012 =
       \<lparr>full_of = 43200, init_of = 3751 / 10, duration_of = - 1812\<rparr>
   \<and> real (45012 mod 43200) / 43200 * 360 = 151 / 10
   \<and> \<not> (3751 / 10 :: real) < 360"
  using sample_at_half_past_twelve by (simp add: animateHands_locals_def Let_def)

text \<open>
  C6. For an initial angle in [0, 360) and the catch-up duration of any hand that goes
  with it, the keyframe list has three entries when the angle is below 180, the middle
  one holding 180 degrees at the time duration / (360 - init) * (180 - init), which is
  strictly between 0 and the duration; it has two entries from 180 on.
\<close>

theorem keyframes_midpoint:
  assumes "0 \<le> init" and "init < 360" and "name \<in> set hand_names"
    and "duration = (360 - init) / 360 * real (full_of (animateHands_locals name time))"
  shows "(init < 180 \<longrightarrow>
            length (keyframes_of init duration) = 3 \<and>
            keyframes_of init duration ! 1 =
              \<lparr>kf_time = duration / (360 - init) * (180 - init),
               kf_value = FromEulerAngles 0 (180 * DegreesToRadians) 0\<rparr> \<and>
            0 < duration / (360 - init) * (180 - init) \<and>
            duration / (360 - init) * (180 - init) < duration) \<and>
         (180 \<le> init \<longrightarrow> length (keyframes_of init duration) = 2)"
proof -
  let ?f = "real (full_of (animateHands_locals name time))"
  have f: "0 < ?f" using assms(3) by (simp add: full_of_hand)
  have nz: "360 - init \<noteq> 0" using assms(2) by simp
  have "duration = (360 - init) * (?f / 360)"
    by (simp add: assms(4))
  then have q: "duration / (360 - init) = ?f / 360"
    using nz by (metis nonzero_mult_div_cancel_left)
  have mid: "duration / (360 - init) * (180 - init) = ?f / 360 * (180 - init)"
    by (simp only: q)
  have dur: "duration = ?f / 360 * (360 - init)"
    by (simp add: assms(4))
  have c: "0 < ?f / 360" using f by simp
  have lo: "init < 180 \<Longrightarrow> 0 < ?f / 360 * (180 - init)"
    using c by simp
  have hi: "?f / 360 * (180 - init) < ?f / 360 * (360 - init)"
    using c by (simp only: mult_less_cancel_left_pos)
  have len3: "init < 180 \<Longrightarrow> length (keyframes_of init duration) = 3"
    by (simp add: keyframes_of_def)
  have second: "init < 180 \<Longrightarrow> keyframes_of init duration ! 1 =
      \<lparr>kf_time = duration / (360 - init) * (180 - init),
       kf_value = FromEulerAngles 0 (180 * DegreesToRadians) 0\<rparr>"
    by (simp add: keyframes_of_def)
  have len2: "180 \<le> init \<Longrightarrow> length (keyframes_of init duration) = 2"
    by (simp add: keyframes_of_def)
  have t_pos: "init < 180 \<Longrightarrow> 0 < duration / (360 - init) * (180 - init)"
    unfolding mid by (rule lo)
  have "duration / (360 - init) * (180 - init) < ?f / 360 * (360 - init)"
    unfolding mid by (rule hi)
  also have "\<dots> = duration" by (rule dur [symmetric])
  finally have t_lt: "duration / (360 - init) * (180 - init) < duration" .
  show ?thesis
    using len3 second len2 t_pos t_lt by blast
qed

theorem keyframes_midpoint_witness:
  "length (keyframes_of (61 / 10) 3539) = 3 \<and>
   keyframes_of (61 / 10) 3539 ! 1 =
     \<lparr>kf_time = 3539 / (360 - 61 / 10) * (180 - 61 / 10),
      kf_value = FromEulerAngles 0 (180 * DegreesToRadians) 0\<rparr> \<and>
   (0::real) < 3539 / (360 - 61 / 10) * (180 - 61 / 10) \<and>
   (3539 / (360 - 61 / 10) * (180 - 61 / 10) :: real) < 3539 \<and>
   length (keyframes_of 270 900) = 2"
  using keyframes_midpoint [of "61 / 10" "''minute''" 3539 3661]
    keyframes_midpoint [of 270 "''minute''" 900 0]
  by (simp add: hand_names_def animateHands_locals_def)





subsection \<open>The cache of animation data\<close>

lemma animationData_for_hit:
  "find (\<lambda>a. dataName a = (name, init, duration)) c = Some a \<Longrightarrow>
   animationData_for name init duration c = Some (a, c)"
  by (simp add: animationData_for_def)

lemma animationData_for_miss:
  "find (\<lambda>a. dataName a = (name, init, duration)) c = None \<Longrightarrow>
   animationData_for name init duration c =
     (if Validate [rotation_track (keyframes_of init duration)] then
        Some (\<lparr>dataId = length c, dataName = (name, init, duration),
                tracks = [rotation_track (keyframes_of init duration)]\<rparr>,
              c @ [\<lparr>dataId = length c, dataName = (name, init, duration),
                     tracks = [rotation_track (keyframes_of init duration)]\<rparr>])
      else None)"
  by (simp add: animationData_for_def createAnimationData_def Let_def)

lemma find_append_hit: "find P xs = Some a \<Longrightarrow> find P (xs @ ys) = Some a"
  by (induction xs) (auto split: if_splits)

lemma find_append_miss: "find P xs = None \<Longrightarrow> find P (xs @ ys) = find P ys"
  by (induction xs) (auto split: if_splits)

lemma container_after_extends:
  "\<exists>ext. container_after name init duration c = c @ ext"
  by (cases "find (\<lambda>a. dataName a = (name, init, duration)) c")
    (simp_all add: container_after_def animationData_for_miss animationData_for_hit)

lemma request_all_Cons:
  "request_all ((name, init, duration) # rs) c =
   request_all rs (container_after name init duration c)"
  by (simp add: request_all_def)

lemma request_all_extends: "\<exists>ext. request_all rs c = c @ ext"
proof (induction rs arbitrary: c)
  case Nil
  show ?case by (simp add: request_all_def)
next
  case (Cons r rs)
  obtain name init duration where r: "r = (name, init, duration)" by (cases r) auto
  obtain e1 where e1: "container_after name init duration c = c @ e1"
    using container_after_extends by blast
  obtain e2 where e2: "request_all rs (c @ e1) = (c @ e1) @ e2"
    using Cons.IH by blast
  show ?case unfolding r request_all_Cons e1 e2 by simp
qed

lemma animationData_for_found:
  assumes "animationData_for name init duration c = Some (a, c')"
  shows "find (\<lambda>a. dataName a = (name, init, duration)) c' = Some a"
proof (cases "find (\<lambda>a. dataName a = (name, init, duration)) c")
  case None
  with assms show ?thesis
    by (auto simp: animationData_for_miss find_append_miss split: if_splits)
next
  case (Some b)
  with assms show ?thesis by (simp add: animationData_for_hit)
qed

lemma container_after_distinct:
  assumes "distinct (map dataName c)"
  shows "distinct (map dataName (container_after name init duration c))"
proof (cases "find (\<lambda>a. dataName a = (name, init, duration)) c")
  case None
  then have "(name, init, duration) \<notin> dataName ` set c"
    by (auto simp: find_None_iff)
  with assms None show ?thesis
    by (simp add: container_after_def animationData_for_miss)
next
  case (Some a)
  with assms show ?thesis by (simp add: container_after_def animationData_for_hit)
qed

lemma request_all_distinct:
  "distinct (map dataName c) \<Longrightarrow> distinct (map dataName (request_all rs c))"
proof (induction rs arbitrary: c)
  case Nil
  then show ?case by (simp add: request_all_def)
next
  case (Cons r rs)
  obtain name init duration where r: "r = (name, init, duration)" by (cases r) auto
  show ?case
    unfolding r request_all_Cons
    by (rule Cons.IH [OF container_after_distinct [OF Cons.prems]])
qed

lemma container_after_refused:
  assumes "\<not> Validate [rotation_track (keyframes_of init duration)]"
    and "find (\<lambda>a. dataName a = (name, init, duration)) c = None"
  shows "find (\<lambda>a. dataName a = (name, init, duration)) (container_after n i d c) = None"
proof (cases "find (\<lambda>a. dataName a = (n, i, d)) c")
  case None
  show ?thesis
  proof (cases "Validate [rotation_track (keyframes_of i d)]")
    case True
    with assms(1) have "(n, i, d) \<noteq> (name, init, duration)" by auto
    with True None assms(2) show ?thesis
      by (simp add: container_after_def animationData_for_miss find_append_miss)
  next
    case False
    with None assms(2) show ?thesis
      by (simp add: container_after_def animationData_for_miss)
  qed
next
  case (Some a)
  with assms(2) show ?thesis by (simp add: container_after_def animationData_for_hit)
qed

lemma request_all_refused:
  assumes "\<not> Validate [rotation_track (keyframes_of init duration)]"
  shows "find (\<lambda>a. dataName a = (name, init, duration)) c = None \<Longrightarrow>
         find (\<lambda>a. dataName a = (name, init, duration)) (request_all rs c) = None"
proof (induction rs arbitrary: c)
  case Nil
  then show ?case by (simp add: request_all_def)
next
  case (Cons r rs)
  obtain n i d where r: "r = (n, i, d)" by (cases r) auto
  show ?case
    unfolding r request_all_Cons
    by (rule Cons.IH [OF container_after_refused [OF assms Cons.prems]])
qed

text \<open>
  C5. A request consults the container first: on a hit it returns the stored object and
  leaves the container alone; on a miss it builds the data and, when the SDK accepts
  it, registers exactly one object under the requested name, and when the SDK refuses
  it the request throws and registers nothing. Asking again for the same name, after
  any further requests, has the outcome of the first request: the same object and
  nothing added, or the exception again; and a container whose names are distinct
  keeps them distinct, so there is never more than one object for a name.
\<close>

theorem animationData_reused:
  assumes "distinct (map dataName c)"
  shows "(let first = animationData_for name init duration c;
              later = request_all rs (container_after name init duration c)
          in (case find (\<lambda>a. dataName a = (name, init, duration)) c of
                Some a \<Rightarrow> first = Some (a, c)
              | None \<Rightarrow>
                  if Validate [rotation_track (keyframes_of init duration)]
                  then \<exists>a. first = Some (a, c @ [a]) \<and>
                           dataName a = (name, init, duration)
                  else first = None) \<and>
             (case first of
                Some (a, c') \<Rightarrow> animationData_for name init duration later = Some (a, later)
              | None \<Rightarrow> animationData_for name init duration later = None) \<and>
             distinct (map dataName later))"
proof -
  let ?key = "\<lambda>a. dataName a = (name, init, duration)"
  let ?first = "animationData_for name init duration c"
  let ?later = "request_all rs (container_after name init duration c)"
  have consult: "case find ?key c of
                   Some a \<Rightarrow> ?first = Some (a, c)
                 | None \<Rightarrow>
                     if Validate [rotation_track (keyframes_of init duration)]
                     then \<exists>a. ?first = Some (a, c @ [a]) \<and>
                              dataName a = (name, init, duration)
                     else ?first = None"
    by (simp add: animationData_for_miss animationData_for_hit split: option.split)
  have again: "case ?first of
                 Some (a, c') \<Rightarrow> animationData_for name init duration ?later = Some (a, ?later)
               | None \<Rightarrow> animationData_for name init duration ?later = None"
  proof (cases ?first)
    case None
    then have miss: "find ?key c = None"
      and bad: "\<not> Validate [rotation_track (keyframes_of init duration)]"
      by (cases "find ?key c"; simp add: animationData_for_miss animationData_for_hit
          split: if_splits)+
    have "container_after name init duration c = c"
      using None by (simp add: container_after_def)
    then have "find ?key ?later = None"
      using request_all_refused [OF bad miss] by simp
    then have "animationData_for name init duration ?later = None"
      using bad by (simp add: animationData_for_miss)
    with None show ?thesis by simp
  next
    case (Some p)
    obtain a c' where p: "p = (a, c')" by (cases p) auto
    have c': "container_after name init duration c = c'"
      using Some p by (simp add: container_after_def)
    obtain ext where "?later = c' @ ext"
      unfolding c' using request_all_extends by blast
    then have "find ?key ?later = Some a"
      using find_append_hit [OF animationData_for_found] Some p by simp
    then have "animationData_for name init duration ?later = Some (a, ?later)"
      by (rule animationData_for_hit)
    with Some p show ?thesis by simp
  qed
  have one: "distinct (map dataName ?later)"
    by (rule request_all_distinct [OF container_after_distinct [OF assms]])
  show ?thesis
    unfolding Let_def using consult again one by blast
qed


lemmas cache_defs =
  animationData_for_def createAnimationData_def container_after_def request_all_def
  Validate_def in_sequence_def rotation_track_def keyframes_of_def Let_def

theorem animationData_reused_witness:
  "distinct (map dataName ([] :: animationData list)) \<and>
   animationData_for ''hour'' 30 39600 [] =
     Some (\<lparr>dataId = 0, dataName = (''hour'', 30, 39600),
             tracks = [rotation_track (keyframes_of 30 39600)]\<rparr>,
           [\<lparr>dataId = 0, dataName = (''hour'', 30, 39600),
             tracks = [rotation_track (keyframes_of 30 39600)]\<rparr>]) \<and>
   animationData_for ''hour'' 30 39600
     (request_all [(''minute'', 6, 3540), (''hour'', 3751 / 10, - 1812), (''hour'', 30, 39600)]
        (container_after ''hour'' 30 39600 [])) =
   Some (\<lparr>dataId = 0, dataName = (''hour'', 30, 39600),
           tracks = [rotation_track (keyframes_of 30 39600)]\<rparr>,
         request_all [(''minute'', 6, 3540), (''hour'', 3751 / 10, - 1812), (''hour'', 30, 39600)]
           (container_after ''hour'' 30 39600 [])) \<and>
   length (request_all [(''minute'', 6, 3540), (''hour'', 3751 / 10, - 1812),
             (''hour'', 30, 39600)] (container_after ''hour'' 30 39600 [])) = 2 \<and>
   animationData_for ''hour'' (3751 / 10) (- 1812) [] = None \<and>
   animationData_for ''hour'' (3751 / 10) (- 1812)
     (request_all [(''minute'', 6, 3540)] (container_after ''hour'' (3751 / 10) (- 1812) [])) =
   None"
proof -
  let ?a = "\<lparr>dataId = 0, dataName = (''hour'', 30 :: real, 39600 :: real),
             tracks = [rotation_track (keyframes_of 30 39600)]\<rparr>"
  let ?rs = "[(''minute'', 6 :: real, 3540 :: real), (''hour'', 3751 / 10, - 1812),
              (''hour'', 30, 39600)]"
  have d: "distinct (map dataName ([] :: animationData list))" by simp
  have f: "animationData_for ''hour'' 30 39600 [] = Some (?a, [?a])"
    by (simp add: cache_defs)
  have g: "animationData_for ''hour'' (3751 / 10) (- 1812) [] = None"
    by (simp add: cache_defs)
  note r = animationData_reused [OF d, of "''hour''" 30 39600 ?rs, unfolded Let_def]
  note q = animationData_reused [OF d, of "''hour''" "3751 / 10" "- 1812"
      "[(''minute'', 6, 3540)]", unfolded Let_def]
  have r2: "animationData_for ''hour'' 30 39600
              (request_all ?rs (container_after ''hour'' 30 39600 [])) =
            Some (?a, request_all ?rs (container_after ''hour'' 30 39600 []))"
    using r unfolding f by simp
  have q2: "animationData_for ''hour'' (3751 / 10) (- 1812)
              (request_all [(''minute'', 6, 3540)]
                 (container_after ''hour'' (3751 / 10) (- 1812) [])) = None"
    using q unfolding g by simp
  have len: "length (request_all ?rs (container_after ''hour'' 30 39600 [])) = 2"
    by (simp add: cache_defs)
  show ?thesis using d f g r2 q2 len by blast
qed


subsection \<open>The machine keeps its invariant\<close>


lemma animateHandHelper_done:
  assumes "animationData_for name init duration (assets s) = Some (a, c')"
  shows "animateHandHelper name init duration loop cont s =
         s\<lparr>assets := c',
           requested := requested s @
             [\<lparr>animData = a, actor = name, isPlaying = True,
               wrap = (if loop then Loop else Once)\<rparr>],
           pending := (pending s)(name \<mapsto>
             AwaitBind \<lparr>animData = a, actor = name, isPlaying = True,
                         wrap = (if loop then Loop else Once)\<rparr> loop cont)\<rparr>"
  using assms by (simp add: animateHandHelper_def Let_def)

lemma animateHandHelper_thrown:
  assumes "animationData_for name init duration (assets s) = None"
  shows "animateHandHelper name init duration loop cont s =
         s\<lparr>pending := (pending s)(name := None), rejected := rejected s @ [name]\<rparr>"
  using assms by (simp add: animateHandHelper_def)

lemma animateHandHelper_other:
  assumes "n \<noteq> name"
  shows "pending (animateHandHelper name init duration loop cont s) n = pending s n"
    and "loops n (animateHandHelper name init duration loop cont s) = loops n s"
  using assms
  by (cases "animationData_for name init duration (assets s)";
      auto simp: animateHandHelper_done animateHandHelper_thrown loops_def)+

lemma loop_data_valid: "0 < f \<Longrightarrow> Validate [rotation_track (keyframes_of 0 f)]"
  by (simp add: Validate_def in_sequence_def rotation_track_def keyframes_of_def Let_def)

lemma loop_data_for:
  assumes "0 < f"
  shows "\<exists>a c'. animationData_for name 0 f c = Some (a, c')"
  by (cases "find (\<lambda>a. dataName a = (name, 0, f)) c")
    (simp_all add: animationData_for_miss animationData_for_hit loop_data_valid [OF assms])












lemma stop_fields:
  "assets (stop s) = assets s" "requested (stop s) = requested s"
  "pending (stop s) = pending s" "animations (stop s) = animations s"
  "rejected (stop s) = rejected s"
  by (simp_all add: stop_def)



lemma run_snoc: "run (es @ [e]) s = step e (run es s)"
  by (simp add: run_def)


subsection \<open>A hand whose pipeline has ended\<close>

lemma returned_other:
  assumes "n \<noteq> name"
  shows "pending (returned name cont s) n = pending s n"
    and "loops n (returned name cont s) = loops n s"
proof -
  show "pending (returned name cont s) n = pending s n"
    using assms by (cases cont) (simp_all add: returned_def animateHandHelper_other(1))
  show "loops n (returned name cont s) = loops n s"
  proof (cases cont)
    case None
    then show ?thesis by (simp add: returned_def loops_def)
  next
    case (Some f)
    then show ?thesis by (simp add: returned_def animateHandHelper_other(2) [OF assms])
  qed
qed

lemma bind_resolved_other:
  assumes "n \<noteq> name"
  shows "pending (bind_resolved name s) n = pending s n"
    and "loops n (bind_resolved name s) = loops n s"
proof -
  have l: "loops n (s\<lparr>created := cs, animations := al\<rparr>) = loops n s" for cs al
    by (simp add: loops_def)
  have l2: "loops n (s\<lparr>created := cs, animations := al, pending := pe\<rparr>) = loops n s"
    for cs al pe
    by (simp add: loops_def)
  show "pending (bind_resolved name s) n = pending s n"
    using assms
    by (simp add: bind_resolved_def Let_def returned_other(1) [OF assms]
        split: option.split task.split)
  show "loops n (bind_resolved name s) = loops n s"
    by (simp add: bind_resolved_def Let_def returned_other(2) [OF assms] l l2
        split: option.split task.split)
qed

lemma timer_fired_other:
  assumes "n \<noteq> name"
  shows "pending (timer_fired name s) n = pending s n"
    and "loops n (timer_fired name s) = loops n s"
  by (simp_all add: timer_fired_def returned_other [OF assms] split: option.split task.split)

lemma idle_step:
  assumes "pending s n = None"
  shows "pending (step e s) n = None \<and> loops n (step e s) = loops n s"
proof (cases e)
  case StopCalled
  then show ?thesis using assms by (simp add: stop_fields loops_def)
next
  case (BindResolved m)
  show ?thesis
  proof (cases "m = n")
    case True
    then show ?thesis using assms BindResolved by (simp add: bind_resolved_def)
  next
    case False
    then have o: "n \<noteq> m" by simp
    show ?thesis
      using assms BindResolved by (simp add: bind_resolved_other [OF o])
  qed
next
  case (TimerFired m)
  show ?thesis
  proof (cases "m = n")
    case True
    then show ?thesis using assms TimerFired by (simp add: timer_fired_def)
  next
    case False
    then have o: "n \<noteq> m" by simp
    show ?thesis
      using assms TimerFired by (simp add: timer_fired_other [OF o])
  qed
qed

lemma idle_run:
  assumes "pending s n = None"
  shows "pending (run es s) n = None \<and> loops n (run es s) = loops n s"
proof (induction es rule: rev_induct)
  case Nil
  show ?case using assms by (simp add: run_def)
next
  case (snoc e es)
  then show ?case using idle_step [of "run es s" n e] by (simp add: run_snoc)
qed

subsection \<open>Concrete runs\<close>

lemmas machine_defs =
  run_def animateHands_def hand_names_def animateHand_def animateHands_locals_def
  animateHandHelper_def animationData_for_def createAnimationData_def bind_resolved_def
  timer_fired_def returned_def stop_def new_watch_def Let_def animationData_duration_def
  rotation_track_def keyframes_of_def Validate_def in_sequence_def

lemma hour_bound_pending:
  "pending hour_bound ''hour'' = Some (AwaitTimer 39539000 (Some 43200))"
  by (simp add: hour_bound_def machine_defs)

lemma hour_bound_animations: "animations hour_bound = [(''hour'', 0)]"
  by (simp add: hour_bound_def machine_defs)

lemma hour_bound_created: "length (created hour_bound) = 1"
  by (simp add: hour_bound_def machine_defs)

text \<open>
  C7. The claim is that the loop phase of every hand is started once the wait of its
  catch-up phase has resolved, and never left out. At 12:30 \<open>now\<close> returns 45012 and
  the hour hand gets the duration -1812, so its keyframe times are 0 and -1812; the
  SDK refuses such data, \<open>createAnimationData\<close> throws and the pipeline of the hour
  hand ends there: only the minute and second hands are bound, the hour hand is never
  catching up, and whatever happens afterwards its loop phase is never started. The
  minute hand of the same watch does start its loop when its timer fires.
\<close>

theorem hour_loop_skipped:
  "now (\<lambda>tz. \<lparr>hour = 12, minute = 30, second = 45\<rparr>) None = Some 45012 \<and>
   map kf_time (keyframes_of (init_of (animateHands_locals ''hour'' 45012))
                  (duration_of (animateHands_locals ''hour'' 45012))) = [0, - 1812] \<and>
   pending started_at_half_past_twelve ''hour'' = None \<and>
   rejected started_at_half_past_twelve = [''hour''] \<and>
   map actor (requested started_at_half_past_twelve) = [''minute'', ''second''] \<and>
   catching_up ''minute'' started_at_half_past_twelve \<and>
   \<not> catching_up ''hour'' (run es started_at_half_past_twelve) \<and>
   loops ''hour'' (run es started_at_half_past_twelve) = 0 \<and>
   loops ''minute''
     (run [BindResolved ''minute'', TimerFired ''minute''] started_at_half_past_twelve) = 1"
proof -
  have k: "map kf_time (keyframes_of (init_of (animateHands_locals ''hour'' 45012))
                  (duration_of (animateHands_locals ''hour'' 45012))) = [0, - 1812]"
    by (simp add: animateHands_locals_def keyframes_of_def Let_def)
  have p: "pending started_at_half_past_twelve ''hour'' = None"
    by (simp add: started_at_half_past_twelve_def machine_defs)
  have r: "rejected started_at_half_past_twelve = [''hour'']"
    by (simp add: started_at_half_past_twelve_def machine_defs)
  have q: "map actor (requested started_at_half_past_twelve) = [''minute'', ''second'']"
    by (simp add: started_at_half_past_twelve_def machine_defs)
  have c: "catching_up ''minute'' started_at_half_past_twelve"
    by (simp add: started_at_half_past_twelve_def machine_defs catching_up_def)
  have l0: "loops ''hour'' started_at_half_past_twelve = 0"
    using q by (auto simp: loops_def filter_empty_conv)
  note i = idle_run [OF p, of es]
  have n: "\<not> catching_up ''hour'' (run es started_at_half_past_twelve)"
    using i by (simp add: catching_up_def)
  have l: "loops ''hour'' (run es started_at_half_past_twelve) = 0"
    using i l0 by simp
  have m: "loops ''minute''
     (run [BindResolved ''minute'', TimerFired ''minute''] started_at_half_past_twelve) = 1"
    by (simp add: started_at_half_past_twelve_def machine_defs loops_def)
  show ?thesis
    using sample_at_half_past_twelve k p r q c n l m by blast
qed


subsection \<open>The data of the loop phase\<close>




subsection \<open>Stopping\<close>

lemma stop_fold_length:
  "length (fold (\<lambda>h cs. cs[h := (cs ! h)\<lparr>isPlaying := False\<rparr>]) hs cs) = length cs"
  by (induction hs arbitrary: cs) simp_all

lemma stop_fold_keeps:
  "h < length cs \<Longrightarrow> \<not> isPlaying (cs ! h) \<Longrightarrow>
   \<not> isPlaying (fold (\<lambda>h cs. cs[h := (cs ! h)\<lparr>isPlaying := False\<rparr>]) hs cs ! h)"
proof (induction hs arbitrary: cs)
  case Nil
  then show ?case by simp
next
  case (Cons x hs)
  have "\<not> isPlaying (cs[x := (cs ! x)\<lparr>isPlaying := False\<rparr>] ! h)"
    using Cons.prems by (cases "x = h") simp_all
  with Cons.prems(1) show ?case by (simp add: Cons.IH)
qed

lemma stop_fold_hits:
  "h \<in> set hs \<Longrightarrow> h < length cs \<Longrightarrow>
   \<not> isPlaying (fold (\<lambda>h cs. cs[h := (cs ! h)\<lparr>isPlaying := False\<rparr>]) hs cs ! h)"
proof (induction hs arbitrary: cs)
  case Nil
  then show ?case by simp
next
  case (Cons x hs)
  show ?case
  proof (cases "x = h")
    case True
    have "\<not> isPlaying (cs[x := (cs ! x)\<lparr>isPlaying := False\<rparr>] ! h)"
      using Cons.prems(2) True by simp
    with Cons.prems(2) show ?thesis by (simp add: stop_fold_keeps)
  next
    case False
    with Cons.prems have "h \<in> set hs" by simp
    with Cons.prems(2) show ?thesis by (simp add: Cons.IH)
  qed
qed

text \<open>
  C3, as claimed, fails: nothing is started after \<open>stop\<close>. The hour hand waits on
  its catch-up timer when \<open>stop\<close> is called; no loop has been started then. The
  timer fires all the same and starts the loop phase, and once the host has bound it the
  instance has a playing animation in wrap mode Loop.
\<close>

theorem stop_then_loop_starts:
  "waiting ''hour'' (stop hour_bound) \<and>
   loops ''hour'' (stop hour_bound) = 0 \<and>
   loops ''hour'' (run [StopCalled, TimerFired ''hour''] hour_bound) = 1 \<and>
   map isPlaying
     (created (run [StopCalled, TimerFired ''hour'', BindResolved ''hour''] hour_bound)) =
     [False, True] \<and>
   map wrap
     (created (run [StopCalled, TimerFired ''hour'', BindResolved ''hour''] hour_bound)) =
     [Once, Loop]"
  by (simp add: hour_bound_def machine_defs loops_def waiting_def)

text \<open>
  C3, amended. \<open>stop\<close> halts every animation that the map of the instance holds,
  whatever its phase, and touches nothing else: what is pending stays pending, so a hand
  that waits on its catch-up timer when \<open>stop\<close> is called starts its loop phase when
  the timer fires. (The data of a loop over a positive duration is never refused.)
\<close>

theorem stop_halts_registered:
  assumes "(n, h) \<in> set (animations s)" and "h < length (created s)"
  shows "\<not> isPlaying (created (stop s) ! h) \<and>
         pending (stop s) = pending s \<and> requested (stop s) = requested s \<and>
         assets (stop s) = assets s \<and>
         (\<forall>name ms full. pending s name = Some (AwaitTimer ms (Some full)) \<longrightarrow>
            requested (timer_fired name (stop s)) =
              requested s @
              (case animationData_for name 0 (real full) (assets s) of
                 None \<Rightarrow> []
               | Some (a, c') \<Rightarrow>
                   [\<lparr>animData = a, actor = name, isPlaying = True, wrap = Loop\<rparr>]) \<and>
            (0 < full \<longrightarrow> animationData_for name 0 (real full) (assets s) \<noteq> None))"
proof -
  have "h \<in> set (map snd (animations s))" using assms(1) by force
  then have a: "\<not> isPlaying (created (stop s) ! h)"
    using assms(2) by (simp add: stop_def stop_fold_hits)
  have b: "requested (timer_fired name (stop s)) =
              requested s @
              (case animationData_for name 0 (real full) (assets s) of
                 None \<Rightarrow> []
               | Some (a, c') \<Rightarrow>
                   [\<lparr>animData = a, actor = name, isPlaying = True, wrap = Loop\<rparr>])"
    if "pending s name = Some (AwaitTimer ms (Some full))" for name ms full
  proof (cases "animationData_for name 0 (real full) (assets s)")
    case None
    then have "animationData_for name 0 (real full) (assets (stop s)) = None"
      by (simp add: stop_fields)
    from animateHandHelper_thrown [OF this] that None show ?thesis
      by (simp add: timer_fired_def returned_def stop_fields)
  next
    case (Some p)
    obtain d c' where p: "p = (d, c')" by (cases p) auto
    with Some have "animationData_for name 0 (real full) (assets (stop s)) = Some (d, c')"
      by (simp add: stop_fields)
    from animateHandHelper_done [OF this] that Some p show ?thesis
      by (simp add: timer_fired_def returned_def stop_fields)
  qed
  have c: "animationData_for name 0 (real full) (assets s) \<noteq> None" if "0 < full"
    for name and full :: nat
    using loop_data_for [of "real full" name "assets s"] that by auto
  show ?thesis using a b c by (simp add: stop_fields)
qed

theorem stop_halts_registered_witness:
  "(''hour'', 0) \<in> set (animations hour_bound) \<and> 0 < length (created hour_bound) \<and>
   pending hour_bound ''hour'' = Some (AwaitTimer 39539000 (Some 43200)) \<and>
   \<not> isPlaying (created (stop hour_bound) ! 0) \<and>
   animationData_for ''hour'' 0 (real 43200) (assets hour_bound) =
     Some (\<lparr>dataId = 3, dataName = (''hour'', 0, 43200),
             tracks = [rotation_track (keyframes_of 0 43200)]\<rparr>,
           assets hour_bound @
           [\<lparr>dataId = 3, dataName = (''hour'', 0, 43200),
              tracks = [rotation_track (keyframes_of 0 43200)]\<rparr>]) \<and>
   requested (timer_fired ''hour'' (stop hour_bound)) =
     requested hour_bound @
     [\<lparr>animData = \<lparr>dataId = 3, dataName = (''hour'', 0, 43200),
                    tracks = [rotation_track (keyframes_of 0 43200)]\<rparr>,
       actor = ''hour'', isPlaying = True, wrap = Loop\<rparr>]"
proof -
  let ?d = "\<lparr>dataId = 3, dataName = (''hour'', 0 :: real, 43200 :: real),
             tracks = [rotation_track (keyframes_of 0 43200)]\<rparr>"
  have a: "(''hour'', 0) \<in> set (animations hour_bound)"
    by (simp add: hour_bound_animations)
  have b: "0 < length (created hour_bound)" by (simp add: hour_bound_created)
  have l: "length (assets hour_bound) = 3"
    by (simp add: hour_bound_def machine_defs)
  have m: "find (\<lambda>a. dataName a = (''hour'', 0, real 43200)) (assets hour_bound) = None"
    by (simp add: hour_bound_def machine_defs)
  have f: "animationData_for ''hour'' 0 (real 43200) (assets hour_bound) =
           Some (?d, assets hour_bound @ [?d])"
    using animationData_for_miss [OF m] loop_data_valid [of "real 43200"] l by simp
  note w = stop_halts_registered [OF a b]
  have r: "requested (timer_fired ''hour'' (stop hour_bound)) =
     requested hour_bound @ [\<lparr>animData = ?d, actor = ''hour'', isPlaying = True, wrap = Loop\<rparr>]"
    using w hour_bound_pending f by simp
  from w a b hour_bound_pending f r show ?thesis by blast
qed

end
